theory Spec2Isabelle
  imports Main
begin

section \<open>The subway graph and its route search\<close>

text \<open>
  The development follows \<^verbatim>\<open>SubwayNYC.cpp\<close>: the structure \<^verbatim>\<open>Edge\<close>, the class
  \<^verbatim>\<open>Graph\<close> with its adjacency list, \<^verbatim>\<open>addEdge\<close>, \<^verbatim>\<open>addBidirectionalEdge\<close>,
  \<^verbatim>\<open>dijkstra\<close> and \<^verbatim>\<open>buildSampleGraph\<close>.
\<close>

subsection \<open>Data\<close>

text \<open>\<^verbatim>\<open>struct Edge { string destination; int cost; string line; }\<close>\<close>

datatype Edge = Edge (destination: string) (cost: int) (line: string)

text \<open>
  \<^verbatim>\<open>class Graph\<close> has one data member, \<^verbatim>\<open>unordered_map<string, vector<Edge>> adjList\<close>.
  A station is a key of the map only once an edge leaving it has been added (or once
  \<^verbatim>\<open>adjList[...]\<close> has been evaluated for it, see \<open>adjList_at\<close>).
\<close>

record Graph =
  adjList :: "string \<rightharpoonup> Edge list"

definition emptyGraph :: Graph where
  "emptyGraph = \<lparr>adjList = Map.empty\<rparr>"

text \<open>
  \<^verbatim>\<open>adjList[k]\<close>: \<^verbatim>\<open>operator[]\<close> of an \<^verbatim>\<open>unordered_map\<close> inserts a value-initialised entry
  (here the empty vector) when the key is absent, and returns a reference to the entry.
  The result is the vector read and the map after the access.
\<close>

definition adjList_at :: "Graph \<Rightarrow> string \<Rightarrow> Edge list \<times> Graph" where
  "adjList_at g k =
     (case adjList g k of
        None \<Rightarrow> ([], g\<lparr>adjList := (adjList g)(k \<mapsto> [])\<rparr>)
      | Some es \<Rightarrow> (es, g))"

text \<open>\<^verbatim>\<open>adjList[from].push_back({to, cost, line})\<close>\<close>

definition addEdge :: "Graph \<Rightarrow> string \<Rightarrow> string \<Rightarrow> int \<Rightarrow> string \<Rightarrow> Graph" where
  "addEdge g frm to c l =
     (let (es, g') = adjList_at g frm
      in g'\<lparr>adjList := (adjList g')(frm \<mapsto> es @ [Edge to c l])\<rparr>)"

definition addBidirectionalEdge :: "Graph \<Rightarrow> string \<Rightarrow> string \<Rightarrow> int \<Rightarrow> string \<Rightarrow> Graph" where
  "addBidirectionalEdge g s1 s2 c l = addEdge (addEdge g s1 s2 c l) s2 s1 c l"

text \<open>The outgoing edges recorded for a station, empty when the station is no key.\<close>

definition neighbors :: "Graph \<Rightarrow> string \<Rightarrow> Edge list" where
  "neighbors g k = (case adjList g k of None \<Rightarrow> [] | Some es \<Rightarrow> es)"

subsection \<open>Machine integers\<close>

text \<open>
  Costs are C++ \<^verbatim>\<open>int\<close> (32 bits, two's complement). Signed overflow is undefined
  behaviour in C++, so an addition whose mathematical result leaves the range has no
  defined value: the model gives it the outcome \<open>Undefined_Behaviour\<close> instead of a
  number.
\<close>

definition INT_MAX :: int where
  "INT_MAX = 2147483647"

definition INT_MIN :: int where
  "INT_MIN = - 2147483648"

datatype 'a outcome = Returns 'a | Undefined_Behaviour

definition add_int :: "int \<Rightarrow> int \<Rightarrow> int outcome" where
  "add_int a b =
     (if INT_MIN \<le> a + b \<and> a + b \<le> INT_MAX then Returns (a + b) else Undefined_Behaviour)"

subsection \<open>The search state\<close>

text \<open>
  \<^verbatim>\<open>struct Node { int cost; string station; string line; }\<close>, local to \<^verbatim>\<open>dijkstra\<close>.
\<close>

datatype Node = Node (cost: int) (station: string) (line: string)

text \<open>
  The locals \<^verbatim>\<open>dist\<close> and \<^verbatim>\<open>parent\<close> are \<^verbatim>\<open>unordered_map\<close>s that the function reads and
  writes through \<^verbatim>\<open>operator[]\<close> only. Such a map behaves as a total function whose value
  at a key never written is the value-initialised one: \<open>0\<close> for \<^verbatim>\<open>int\<close>, the pair of
  empty strings for \<^verbatim>\<open>pair<string, string>\<close>. The member \<^verbatim>\<open>adjList\<close> is part of the state
  because \<^verbatim>\<open>adjList[current.station]\<close> may insert a key.

  The priority queue is the list of its entries. \<^verbatim>\<open>greater<Node>\<close> compares costs only, so
  \<^verbatim>\<open>pq.top()\<close> is some entry of least cost; which one among several of equal cost is left to
  the heap. The parameter \<open>tie\<close> makes that choice from the content of the queue, and the
  theorems below hold for every \<open>tie\<close>. (An entry is pushed only with a cost below the
  distance of its station, which then takes that cost: no entry is pushed twice, no
  content of the queue occurs twice in a run, and so a choice by content covers any heap.)
\<close>

record SearchState =
  graph :: Graph
  dist :: "string \<Rightarrow> int"
  parent :: "string \<Rightarrow> string \<times> string"
  pq :: "Node list"

definition pq_top :: "(Node list \<Rightarrow> nat) \<Rightarrow> Node list \<Rightarrow> Node" where
  "pq_top tie q =
     (let least = filter (\<lambda>n. list_all (\<lambda>m. Node.cost n \<le> Node.cost m) q) q
      in least ! (tie q mod length least))"

definition pq_pop :: "(Node list \<Rightarrow> nat) \<Rightarrow> Node list \<Rightarrow> Node list" where
  "pq_pop tie q = remove1 (pq_top tie q) q"

definition pq_push :: "Node \<Rightarrow> Node list \<Rightarrow> Node list" where
  "pq_push n q = q @ [n]"

subsection \<open>The search\<close>

text \<open>
  Lines 51 to 75: every key of \<^verbatim>\<open>adjList\<close> gets distance \<^verbatim>\<open>numeric_limits<int>::max()\<close>,
  the source gets distance 0 and the parent \<^verbatim>\<open>{"", ""}\<close>, and the queue holds
  \<^verbatim>\<open>{0, source, ""}\<close>.
\<close>

definition init_state :: "Graph \<Rightarrow> string \<Rightarrow> SearchState" where
  "init_state g source =
     \<lparr>graph = g,
      dist = (\<lambda>k. case adjList g k of None \<Rightarrow> 0 | Some es \<Rightarrow> INT_MAX)(source := 0),
      parent = (\<lambda>k. ('''', ''''))(source := ('''', '''')),
      pq = pq_push (Node 0 source '''') []\<rparr>"

text \<open>The body of the loop over the edges of the popped station, lines 85 to 94.\<close>

definition relax_edge :: "int \<Rightarrow> Node \<Rightarrow> Edge \<Rightarrow> SearchState \<Rightarrow> SearchState outcome" where
  "relax_edge transferCost current edge st =
     (let extra = (if Node.line current \<noteq> '''' \<and> Node.line current \<noteq> Edge.line edge
                   then transferCost else 0)
      in case add_int (Node.cost current) (Edge.cost edge) of
           Undefined_Behaviour \<Rightarrow> Undefined_Behaviour
         | Returns partial \<Rightarrow>
             (case add_int partial extra of
                Undefined_Behaviour \<Rightarrow> Undefined_Behaviour
              | Returns newCost \<Rightarrow>
                  if newCost < dist st (Edge.destination edge)
                  then Returns (st\<lparr>dist := (dist st)(Edge.destination edge := newCost),
                                   parent := (parent st)(Edge.destination edge :=
                                               (Node.station current, Edge.line edge)),
                                   pq := pq_push (Node newCost (Edge.destination edge) (Edge.line edge))
                                           (pq st)\<rparr>)
                  else Returns st))"

fun relax_edges :: "int \<Rightarrow> Node \<Rightarrow> Edge list \<Rightarrow> SearchState \<Rightarrow> SearchState outcome" where
  "relax_edges transferCost current [] st = Returns st"
| "relax_edges transferCost current (edge # edges) st =
     (case relax_edge transferCost current edge st of
        Undefined_Behaviour \<Rightarrow> Undefined_Behaviour
      | Returns st' \<Rightarrow> relax_edges transferCost current edges st')"

text \<open>
  The \<^verbatim>\<open>while (!pq.empty())\<close> loop, lines 77 to 96. \<open>None\<close> is a loop that never ends.
\<close>

partial_function (option) search_loop ::
  "(Node list \<Rightarrow> nat) \<Rightarrow> string \<Rightarrow> int \<Rightarrow> SearchState \<Rightarrow> SearchState outcome option" where
  "search_loop tie dest transferCost st =
     (if pq st = [] then Some (Returns st)
      else
        let current = pq_top tie (pq st);
            st1 = st\<lparr>pq := pq_pop tie (pq st)\<rparr>
        in if Node.cost current > dist st1 (Node.station current)
           then search_loop tie dest transferCost st1
           else if Node.station current = dest
           then Some (Returns st1)
           else
             (case adjList_at (graph st1) (Node.station current) of
                (edges, g') \<Rightarrow>
                  (case relax_edges transferCost current edges (st1\<lparr>graph := g'\<rparr>) of
                     Undefined_Behaviour \<Rightarrow> Some Undefined_Behaviour
                   | Returns st2 \<Rightarrow> search_loop tie dest transferCost st2)))"

text \<open>
  The path reconstruction loop, lines 103 to 107. \<open>None\<close> is a loop that never ends: the
  source's vector then grows without bound.
\<close>

partial_function (option) reconstruct ::
  "(string \<Rightarrow> string \<times> string) \<Rightarrow> string \<Rightarrow> string \<Rightarrow> (string \<times> string) list
     \<Rightarrow> (string \<times> string) list option" where
  "reconstruct par source cur fullPath =
     (if cur \<noteq> source
      then reconstruct par source (fst (par cur)) (fullPath @ [(cur, snd (par cur))])
      else Some fullPath)"

text \<open>
  \<^verbatim>\<open>dijkstra\<close>, lines 50 to 111. The result is the returned pair together with the graph
  after the call. \<open>None\<close>: the call does not return; \<open>Some Undefined_Behaviour\<close>: a cost
  addition overflowed.
\<close>

type_synonym Route = "int \<times> (string \<times> string) list"

definition dijkstra ::
  "(Node list \<Rightarrow> nat) \<Rightarrow> Graph \<Rightarrow> string \<Rightarrow> string \<Rightarrow> int \<Rightarrow> (Route \<times> Graph) outcome option" where
  "dijkstra tie g source dest transferCost =
     (case search_loop tie dest transferCost (init_state g source) of
        None \<Rightarrow> None
      | Some Undefined_Behaviour \<Rightarrow> Some Undefined_Behaviour
      | Some (Returns st) \<Rightarrow>
          if dist st dest = INT_MAX
          then Some (Returns ((- 1, []), graph st))
          else
            (case reconstruct (parent st) source dest [] of
               None \<Rightarrow> None
             | Some fullPath \<Rightarrow>
                 Some (Returns ((dist st dest, rev (fullPath @ [(source, '''')])),
                                graph st))))"

subsection \<open>The iterations of the search loop\<close>

text \<open>
  One pass through the body of the \<^verbatim>\<open>while\<close> loop, lines 78 to 95: either the loop goes
  on with a new state, or it ends (empty queue, \<^verbatim>\<open>break\<close>, or an overflowing addition).
  \<open>search_loop\<close> is this body repeated (lemma \<open>search_loop_body\<close>), and \<open>loop_iter n\<close> is the
  state at the head of the loop after \<open>n\<close> passes, when the loop gets that far.
\<close>

datatype step = Continue SearchState | Stop "SearchState outcome"

definition loop_body :: "(Node list \<Rightarrow> nat) \<Rightarrow> string \<Rightarrow> int \<Rightarrow> SearchState \<Rightarrow> step" where
  "loop_body tie dest transferCost st =
     (if pq st = [] then Stop (Returns st)
      else
        let current = pq_top tie (pq st);
            st1 = st\<lparr>pq := pq_pop tie (pq st)\<rparr>
        in if Node.cost current > dist st1 (Node.station current)
           then Continue st1
           else if Node.station current = dest
           then Stop (Returns st1)
           else
             (case adjList_at (graph st1) (Node.station current) of
                (edges, g') \<Rightarrow>
                  (case relax_edges transferCost current edges (st1\<lparr>graph := g'\<rparr>) of
                     Undefined_Behaviour \<Rightarrow> Stop Undefined_Behaviour
                   | Returns st2 \<Rightarrow> Continue st2)))"


subsection \<open>The sample network\<close>

definition buildSampleGraph :: "Graph \<Rightarrow> Graph" where
  "buildSampleGraph graph0 =
     (let g1 = addBidirectionalEdge graph0 ''Times Sq'' ''42nd St'' 4 ''1'';
          g2 = addBidirectionalEdge g1 ''42nd St'' ''34th St'' 5 ''1'';
          g3 = addBidirectionalEdge g2 ''34th St'' ''Penn Station'' 6 ''1'';
          g4 = addBidirectionalEdge g3 ''42nd St'' ''Grand Central'' 3 ''2'';
          g5 = addBidirectionalEdge g4 ''Grand Central'' ''14th St'' 6 ''2'';
          g6 = addBidirectionalEdge g5 ''14th St'' ''Wall St'' 7 ''2'';
          g7 = addBidirectionalEdge g6 ''34th St'' ''Union Sq'' 4 ''3'';
          g8 = addBidirectionalEdge g7 ''Union Sq'' ''Houston St'' 7 ''3'';
          g9 = addBidirectionalEdge g8 ''Houston St'' ''Canal St'' 5 ''3''
      in addBidirectionalEdge g9 ''Grand Central'' ''Union Sq'' 4 ''Interchange'')"

section \<open>The cost model of the specification\<close>

text \<open>
  The specification prices a route edge by edge: the cost of the edge, plus the transfer
  penalty when the line held so far is not the none value (the empty string) and differs
  from the line of the edge. The two definitions of this section follow those words, not
  the code.
\<close>

definition spec_transfer :: "int \<Rightarrow> string \<Rightarrow> string \<Rightarrow> int" where
  "spec_transfer penalty cur l = (if cur \<noteq> '''' \<and> cur \<noteq> l then penalty else 0)"

text \<open>
  An itinerary is a list of pairs (station, line used to arrive). Between two stations
  the graph may hold several edges of the same line, so an itinerary has a list of
  possible totals: one for every choice of stored edges that match its consecutive
  entries in endpoint and line. The list is empty exactly when some consecutive pair
  matches no stored edge.
\<close>

fun spec_itinerary_totals :: "Graph \<Rightarrow> int \<Rightarrow> (string \<times> string) list \<Rightarrow> int list" where
  "spec_itinerary_totals g penalty [] = []"
| "spec_itinerary_totals g penalty [x] = [0]"
| "spec_itinerary_totals g penalty (x # y # rest) =
     concat (map (\<lambda>e. map (\<lambda>t. t + Edge.cost e + spec_transfer penalty (snd x) (snd y))
                          (spec_itinerary_totals g penalty (y # rest)))
                 (filter (\<lambda>e. Edge.destination e = fst y \<and> Edge.line e = snd y)
                         (neighbors g (fst x))))"

text \<open>
  Every consecutive pair of entries corresponds to a stored edge: from the station of the
  first entry to the station of the second, on the line of the second.
\<close>

fun spec_hops_stored :: "Graph \<Rightarrow> (string \<times> string) list \<Rightarrow> bool" where
  "spec_hops_stored g [] = True"
| "spec_hops_stored g [x] = True"
| "spec_hops_stored g (x # y # rest) =
     (list_ex (\<lambda>e. Edge.destination e = fst y \<and> Edge.line e = snd y) (neighbors g (fst x))
      \<and> spec_hops_stored g (y # rest))"

text \<open>The data invariant of the specification: no edge has a negative cost.\<close>

definition nonneg_costs :: "Graph \<Rightarrow> bool" where
  "nonneg_costs g \<longleftrightarrow> (\<forall>k. \<forall>e \<in> set (neighbors g k). 0 \<le> Edge.cost e)"


section \<open>Example networks\<close>

text \<open>The heap order that always takes the first of the entries of least cost.\<close>

definition tie_first :: "Node list \<Rightarrow> nat" where
  "tie_first q = 0"

text \<open>
  Two lines between S and M, line A the cheaper one, and line B alone from M to D.
\<close>

definition trap_net :: Graph where
  "trap_net =
     addBidirectionalEdge
       (addBidirectionalEdge
          (addBidirectionalEdge emptyGraph ''S'' ''M'' 1 ''A'')
          ''S'' ''M'' 2 ''B'')
       ''M'' ''D'' 1 ''B''"

text \<open>
  From S to M either directly on line B, or through Y with a change from line X to
  line A; line B alone from M to D.
\<close>

definition detour_net :: Graph where
  "detour_net =
     addBidirectionalEdge
       (addBidirectionalEdge
          (addBidirectionalEdge
             (addBidirectionalEdge emptyGraph ''S'' ''Y'' 1 ''X'')
             ''Y'' ''M'' 1 ''A'')
          ''S'' ''M'' 5 ''B'')
       ''M'' ''D'' 1 ''B''"


text \<open>Two components, A with B and C with D.\<close>

definition two_components :: Graph where
  "two_components =
     addBidirectionalEdge (addBidirectionalEdge emptyGraph ''A'' ''B'' 3 ''1'') ''C'' ''D'' 4 ''2''"

text \<open>A single directed edge: B has no outgoing edge.\<close>

definition one_way_net :: Graph where
  "one_way_net = addEdge emptyGraph ''A'' ''B'' 3 ''1''"

text \<open>A to B on line 1, B to C on line 2.\<close>

definition two_hop_net :: Graph where
  "two_hop_net =
     addBidirectionalEdge (addBidirectionalEdge emptyGraph ''A'' ''B'' 4 ''1'') ''B'' ''C'' 3 ''2''"

section \<open>The invariant of the search\<close>

text \<open>
  The distance every station starts with, before the source is set to 0: the maximal
  \<^verbatim>\<open>int\<close> for a key of the adjacency list, and 0, the value-initialised \<^verbatim>\<open>int\<close>, for
  any other station.
\<close>

definition init_dist :: "Graph \<Rightarrow> string \<Rightarrow> int" where
  "init_dist g k = (case adjList g k of None \<Rightarrow> 0 | Some es \<Rightarrow> INT_MAX)"

text \<open>
  A station \<open>v\<close> is linked when its parent entry names a stored edge into \<open>v\<close> whose
  start \<open>u\<close> is final (its distance is at most the bound \<open>m\<close> under every queue entry),
  and the distance of \<open>v\<close> is the distance of \<open>u\<close> plus the cost of the edge plus the
  transfer from the line recorded for \<open>u\<close>.
\<close>

definition linked :: "Graph \<Rightarrow> string \<Rightarrow> int \<Rightarrow> int \<Rightarrow> SearchState \<Rightarrow> string \<Rightarrow> bool" where
  "linked g s tc m st v \<longleftrightarrow>
     (let u = fst (parent st v) in
        (\<exists>e \<in> set (neighbors g u).
            Edge.destination e = v \<and> Edge.line e = snd (parent st v) \<and>
            dist st v = dist st u + Edge.cost e
                          + spec_transfer tc (snd (parent st u)) (Edge.line e))
        \<and> dist st u \<le> m \<and> (u = s \<or> dist st u < init_dist g u))"

definition search_inv :: "Graph \<Rightarrow> string \<Rightarrow> int \<Rightarrow> int \<Rightarrow> SearchState \<Rightarrow> bool" where
  "search_inv g s tc m st \<longleftrightarrow>
     (\<forall>k. neighbors (graph st) k = neighbors g k) \<and>
     dist st s = 0 \<and> parent st s = ('''', '''') \<and>
     (\<forall>v. 0 \<le> dist st v \<and> dist st v \<le> init_dist g v) \<and>
     (\<forall>n \<in> set (pq st).
         m \<le> Node.cost n \<and> dist st (Node.station n) \<le> Node.cost n \<and>
         (Node.cost n = dist st (Node.station n) \<longrightarrow>
            Node.line n = snd (parent st (Node.station n))) \<and>
         (Node.station n = s \<or> dist st (Node.station n) < init_dist g (Node.station n))) \<and>
     (\<forall>v. v \<noteq> s \<and> dist st v < init_dist g v \<longrightarrow> linked g s tc m st v)"

text \<open>What holds of the popped entry \<open>c\<close> while its edges are relaxed.\<close>

definition expanding :: "Graph \<Rightarrow> string \<Rightarrow> Node \<Rightarrow> SearchState \<Rightarrow> bool" where
  "expanding g s c st \<longleftrightarrow>
     dist st (Node.station c) = Node.cost c \<and>
     snd (parent st (Node.station c)) = Node.line c \<and>
     (Node.station c = s \<or> dist st (Node.station c) < init_dist g (Node.station c))"


text \<open>
  The entries the reconstruction loop appends, from \<open>cur\<close> back to the source
  (the source excluded).
\<close>

fun chain ::
  "(string \<Rightarrow> string \<times> string) \<Rightarrow> string \<Rightarrow> string \<Rightarrow> (string \<times> string) list \<Rightarrow> bool" where
  "chain par s cur [] = (cur = s)"
| "chain par s cur (x # xs) =
     (cur \<noteq> s \<and> x = (cur, snd (par cur)) \<and> chain par s (fst (par cur)) xs)"

section \<open>Lemmas\<close>

lemma pq_top_props:
  assumes "q \<noteq> []"
  shows "pq_top tie q \<in> set q" and "\<forall>m \<in> set q. Node.cost (pq_top tie q) \<le> Node.cost m"
proof -
  let ?least = "filter (\<lambda>n. list_all (\<lambda>m. Node.cost n \<le> Node.cost m) q) q"
  have "Min (Node.cost ` set q) \<in> Node.cost ` set q"
    using assms by (intro Min_in) auto
  then obtain n where n: "n \<in> set q" "Node.cost n = Min (Node.cost ` set q)"
    by auto
  have "\<forall>m \<in> set q. Node.cost n \<le> Node.cost m"
    using n by simp
  then have "n \<in> set ?least"
    using n by (simp add: list_all_iff)
  then have ne: "?least \<noteq> []" by (metis empty_iff list.set(1))
  then have "tie q mod length ?least < length ?least" by simp
  then have "?least ! (tie q mod length ?least) \<in> set ?least"
    by (rule nth_mem)
  then have "pq_top tie q \<in> set ?least"
    by (simp add: pq_top_def Let_def)
  then show "pq_top tie q \<in> set q" and "\<forall>m \<in> set q. Node.cost (pq_top tie q) \<le> Node.cost m"
    by (simp_all add: list_all_iff)
qed

lemma search_inv_init: "search_inv g s tc 0 (init_state g s)"
  by (auto simp: search_inv_def init_state_def init_dist_def pq_push_def INT_MAX_def
      split: option.splits)

lemma search_inv_pop:
  assumes inv: "search_inv g s tc m st" and ne: "pq st \<noteq> []"
    and c: "c = pq_top tie (pq st)"
  shows "search_inv g s tc (Node.cost c) (st\<lparr>pq := pq_pop tie (pq st)\<rparr>)"
proof -
  have cin: "c \<in> set (pq st)" and cmin: "\<forall>n \<in> set (pq st). Node.cost c \<le> Node.cost n"
    using pq_top_props[OF ne, of tie] c by simp_all
  have mc: "m \<le> Node.cost c"
    using inv cin by (simp add: search_inv_def)
  have sub: "set (pq_pop tie (pq st)) \<subseteq> set (pq st)"
    by (simp add: pq_pop_def set_remove1_subset)
  have lk: "linked g s tc (Node.cost c) (st\<lparr>pq := pq_pop tie (pq st)\<rparr>) v" if "linked g s tc m st v" for v
    using that mc by (auto simp: linked_def Let_def)
  show ?thesis
    using inv sub cmin lk unfolding search_inv_def
    by (auto simp: subset_iff)
qed


lemma relax_edge_Returns:
  assumes "relax_edge tc c e st = Returns st'"
  shows "st' = (if Node.cost c + Edge.cost e + spec_transfer tc (Node.line c) (Edge.line e)
                    < dist st (Edge.destination e)
                then st\<lparr>dist := (dist st)(Edge.destination e :=
                              Node.cost c + Edge.cost e + spec_transfer tc (Node.line c) (Edge.line e)),
                        parent := (parent st)(Edge.destination e := (Node.station c, Edge.line e)),
                        pq := pq st @ [Node (Node.cost c + Edge.cost e
                                 + spec_transfer tc (Node.line c) (Edge.line e))
                                 (Edge.destination e) (Edge.line e)]\<rparr>
                else st)"
  using assms
  by (auto simp: relax_edge_def add_int_def spec_transfer_def pq_push_def Let_def
      split: if_splits outcome.splits)

lemma relax_edge_inv:
  assumes nn: "nonneg_costs g" and tc: "0 \<le> tc"
    and inv: "search_inv g s tc (Node.cost c) st" and ex: "expanding g s c st"
    and e: "e \<in> set (neighbors g (Node.station c))"
    and r: "relax_edge tc c e st = Returns st'"
  shows "search_inv g s tc (Node.cost c) st' \<and> expanding g s c st'"
proof -
  define v where "v = Edge.destination e"
  define newCost where
    "newCost = Node.cost c + Edge.cost e + spec_transfer tc (Node.line c) (Edge.line e)"
  show ?thesis
  proof (cases "newCost < dist st v")
    case False
    then have "st' = st"
      using relax_edge_Returns[OF r] by (simp add: newCost_def v_def)
    then show ?thesis using inv ex by simp
  next
    case True
    have st': "st' = st\<lparr>dist := (dist st)(v := newCost),
                        parent := (parent st)(v := (Node.station c, Edge.line e)),
                        pq := pq st @ [Node newCost v (Edge.line e)]\<rparr>"
      using relax_edge_Returns[OF r] True by (simp add: newCost_def v_def)
    have ce: "0 \<le> Edge.cost e"
      using nn e by (auto simp: nonneg_costs_def)
    have xe: "0 \<le> spec_transfer tc (Node.line c) (Edge.line e)"
      using tc by (simp add: spec_transfer_def)
    have ge: "Node.cost c \<le> newCost"
      using ce xe by (simp add: newCost_def)
    have dc: "dist st (Node.station c) = Node.cost c"
      and lc: "snd (parent st (Node.station c)) = Node.line c"
      and rc: "Node.station c = s \<or> dist st (Node.station c) < init_dist g (Node.station c)"
      using ex by (auto simp: expanding_def)
    have d0: "\<And>w. 0 \<le> dist st w" and di: "\<And>w. dist st w \<le> init_dist g w"
      and ds: "dist st s = 0" and ps: "parent st s = ('''', '''')"
      and gr: "\<And>k. neighbors (graph st) k = neighbors g k"
      using inv by (simp_all add: search_inv_def)
    have c0: "0 \<le> Node.cost c" using d0[of "Node.station c"] dc by simp
    have vs: "v \<noteq> s" using True ds ge c0 by auto
    have vc: "v \<noteq> Node.station c" using True dc ge by auto
    have low: "\<And>u. dist st u \<le> Node.cost c \<Longrightarrow> u \<noteq> v" using True ge by auto
    have q: "\<And>n. n \<in> set (pq st) \<Longrightarrow>
         Node.cost c \<le> Node.cost n \<and> dist st (Node.station n) \<le> Node.cost n \<and>
         (Node.cost n = dist st (Node.station n) \<longrightarrow>
            Node.line n = snd (parent st (Node.station n))) \<and>
         (Node.station n = s \<or> dist st (Node.station n) < init_dist g (Node.station n))"
      using inv by (simp add: search_inv_def)
    have lk: "\<And>w. w \<noteq> s \<Longrightarrow> dist st w < init_dist g w \<Longrightarrow> linked g s tc (Node.cost c) st w"
      using inv by (simp add: search_inv_def)
    have i1: "\<forall>k. neighbors (graph st') k = neighbors g k"
      using gr by (simp add: st')
    have i2: "dist st' s = 0 \<and> parent st' s = ('''', '''')"
      using ds ps vs by (simp add: st')
    have i3: "\<forall>w. 0 \<le> dist st' w \<and> dist st' w \<le> init_dist g w"
      using d0 di True ge c0 by (auto simp: st' intro: order_trans less_imp_le)
    have i4: "\<forall>n \<in> set (pq st').
         Node.cost c \<le> Node.cost n \<and> dist st' (Node.station n) \<le> Node.cost n \<and>
         (Node.cost n = dist st' (Node.station n) \<longrightarrow>
            Node.line n = snd (parent st' (Node.station n))) \<and>
         (Node.station n = s \<or> dist st' (Node.station n) < init_dist g (Node.station n))"
    proof
      fix n assume "n \<in> set (pq st')"
      then consider (old) "n \<in> set (pq st)" | (new) "n = Node newCost v (Edge.line e)"
        by (auto simp: st')
      then show "Node.cost c \<le> Node.cost n \<and> dist st' (Node.station n) \<le> Node.cost n \<and>
         (Node.cost n = dist st' (Node.station n) \<longrightarrow>
            Node.line n = snd (parent st' (Node.station n))) \<and>
         (Node.station n = s \<or> dist st' (Node.station n) < init_dist g (Node.station n))"
      proof cases
        case old
        show ?thesis
        proof (cases "Node.station n = v")
          case True
          with q[OF old] \<open>newCost < dist st v\<close> di[of v] show ?thesis
            by (auto simp: st')
        next
          case False
          with q[OF old] show ?thesis by (simp add: st')
        qed
      next
        case new
        then show ?thesis
          using ge True di[of v] by (auto simp: st')
      qed
    qed
    have i5: "\<forall>w. w \<noteq> s \<and> dist st' w < init_dist g w \<longrightarrow> linked g s tc (Node.cost c) st' w"
    proof (intro allI impI)
      fix w assume w: "w \<noteq> s \<and> dist st' w < init_dist g w"
      show "linked g s tc (Node.cost c) st' w"
      proof (cases "w = v")
        case True
        have "e \<in> set (neighbors g (Node.station c))" by (rule e)
        moreover have "dist st' v = dist st' (Node.station c) + Edge.cost e
              + spec_transfer tc (snd (parent st' (Node.station c))) (Edge.line e)"
          using vc dc lc by (simp add: st' newCost_def)
        moreover have "fst (parent st' v) = Node.station c" "snd (parent st' v) = Edge.line e"
          by (simp_all add: st')
        moreover have "dist st' (Node.station c) \<le> Node.cost c"
          using vc dc by (simp add: st')
        moreover have "Node.station c = s \<or> dist st' (Node.station c) < init_dist g (Node.station c)"
          using rc vc by (simp add: st')
        ultimately show ?thesis
          unfolding True linked_def Let_def v_def by auto
      next
        case False
        then have old: "linked g s tc (Node.cost c) st w"
          using w lk[of w] by (simp add: st')
        define u where "u = fst (parent st w)"
        have "dist st u \<le> Node.cost c"
          using old by (simp add: linked_def Let_def u_def)
        then have uv: "u \<noteq> v" by (rule low)
        show ?thesis
          using old False uv
          by (simp add: linked_def Let_def u_def st')
      qed
    qed
    have i6: "expanding g s c st'"
      using dc lc rc vc by (simp add: expanding_def st')
    show ?thesis
      using i1 i2 i3 i4 i5 i6 unfolding search_inv_def by blast
  qed
qed

lemma relax_edges_inv:
  assumes nn: "nonneg_costs g" and tc: "0 \<le> tc"
    and es: "set es \<subseteq> set (neighbors g (Node.station c))"
    and inv: "search_inv g s tc (Node.cost c) st" and ex: "expanding g s c st"
    and r: "relax_edges tc c es st = Returns st'"
  shows "search_inv g s tc (Node.cost c) st'"
  using es inv ex r
proof (induction es arbitrary: st)
  case Nil
  then show ?case by simp
next
  case (Cons e es)
  from Cons.prems(4) obtain st1 where
    r1: "relax_edge tc c e st = Returns st1" and r2: "relax_edges tc c es st1 = Returns st'"
    by (auto split: outcome.splits)
  have "e \<in> set (neighbors g (Node.station c))"
    using Cons.prems(1) by simp
  from relax_edge_inv[OF nn tc Cons.prems(2) Cons.prems(3) this r1]
  have "search_inv g s tc (Node.cost c) st1" and "expanding g s c st1"
    by simp_all
  with Cons.IH[of st1] Cons.prems(1) r2 show ?case by simp
qed

lemma adjList_at_neighbors:
  "adjList_at g k = (es, g') \<Longrightarrow> es = neighbors g k \<and> (\<forall>j. neighbors g' j = neighbors g j)"
  by (auto simp: adjList_at_def neighbors_def split: option.splits if_splits)

lemma search_loop_inv_aux:
  assumes nn: "nonneg_costs g" and tc: "0 \<le> tc"
    and run: "search_loop tie dest tc' st = Some r"
  shows "tc' = tc \<longrightarrow> (\<forall>st'. r = Returns st' \<longrightarrow> (\<exists>m. search_inv g s tc m st)
           \<longrightarrow> (\<exists>m. search_inv g s tc m st'))"
proof (induction tie dest tc' st r rule: search_loop.raw_induct)
  case (1 loop tie dest tc' st r)
  note IH = 1(1) and body = 1(2)
  show ?case
  proof (intro impI allI)
    fix st'
    assume eq: "tc' = tc" "r = Returns st'" and inv: "\<exists>m. search_inv g s tc m st"
    show "\<exists>m. search_inv g s tc m st'"
    proof (cases "pq st = []")
      case True
      with body eq inv show ?thesis by simp
    next
      case False
      define c where "c = pq_top tie (pq st)"
      define st1 where "st1 = st\<lparr>pq := pq_pop tie (pq st)\<rparr>"
      from inv obtain m where m: "search_inv g s tc m st" by blast
      have inv1: "search_inv g s tc (Node.cost c) st1"
        unfolding st1_def by (rule search_inv_pop[OF m False c_def])
      have cin: "c \<in> set (pq st)"
        using pq_top_props(1)[OF False, of tie] by (simp add: c_def)
      have cq: "dist st (Node.station c) \<le> Node.cost c"
        "Node.cost c = dist st (Node.station c) \<Longrightarrow> Node.line c = snd (parent st (Node.station c))"
        "Node.station c = s \<or> dist st (Node.station c) < init_dist g (Node.station c)"
        using m cin by (auto simp: search_inv_def)
      show ?thesis
      proof (cases "Node.cost c > dist st1 (Node.station c)")
        case True
        with body False have l1: "loop tie dest tc' st1 = Some r"
          by (simp add: c_def st1_def Let_def)
        from IH[OF l1] eq inv1 show ?thesis by blast
      next
        case fresh: False
        show ?thesis
        proof (cases "Node.station c = dest")
          case True
          with body False fresh have "r = Returns st1"
            by (simp add: c_def st1_def Let_def)
          with eq inv1 show ?thesis by auto
        next
          case ndest: False
          obtain es g' where ag: "adjList_at (graph st1) (Node.station c) = (es, g')"
            by (cases "adjList_at (graph st1) (Node.station c)")
          from adjList_at_neighbors[OF ag]
          have es: "es = neighbors (graph st1) (Node.station c)"
            and g': "\<forall>j. neighbors g' j = neighbors (graph st1) j" by simp_all
          have gr1: "\<forall>k. neighbors (graph st1) k = neighbors g k"
            using inv1 by (simp add: search_inv_def)
          have inv2: "search_inv g s tc (Node.cost c) (st1\<lparr>graph := g'\<rparr>)"
            using inv1 g' by (simp add: search_inv_def linked_def)
          have ex2: "expanding g s c (st1\<lparr>graph := g'\<rparr>)"
            using cq fresh by (auto simp: expanding_def st1_def)
          have sub: "set es \<subseteq> set (neighbors g (Node.station c))"
            using es gr1 by simp
          from body False fresh ndest ag
          have b: "(case relax_edges tc' c es (st1\<lparr>graph := g'\<rparr>) of
                     Returns st2 \<Rightarrow> loop tie dest tc' st2
                   | Undefined_Behaviour \<Rightarrow> Some Undefined_Behaviour) = Some r"
            by (simp add: c_def st1_def Let_def)
          show ?thesis
          proof (cases "relax_edges tc' c es (st1\<lparr>graph := g'\<rparr>)")
            case Undefined_Behaviour
            with b eq show ?thesis by simp
          next
            case (Returns st2)
            with b have l2: "loop tie dest tc' st2 = Some r" by simp
            from Returns eq have "relax_edges tc c es (st1\<lparr>graph := g'\<rparr>) = Returns st2" by simp
            from relax_edges_inv[OF nn tc sub inv2 ex2 this]
            have "search_inv g s tc (Node.cost c) st2" .
            with IH[OF l2] eq show ?thesis by blast
          qed
        qed
      qed
    qed
  qed
qed (rule run)

lemma reconstruct_chain:
  assumes run: "reconstruct par s cur acc = Some y"
  shows "\<exists>ys. y = acc @ ys \<and> chain par s cur ys"
proof (induction par s cur acc y rule: reconstruct.raw_induct)
  case (1 rec par s cur acc y)
  show ?case
  proof (cases "cur = s")
    case True
    with 1(2) show ?thesis by simp
  next
    case False
    with 1(2) have "rec par s (fst (par cur)) (acc @ [(cur, snd (par cur))]) = Some y"
      by simp
    from 1(1)[OF this] obtain ys where
      "y = (acc @ [(cur, snd (par cur))]) @ ys" "chain par s (fst (par cur)) ys"
      by blast
    with False have "y = acc @ ((cur, snd (par cur)) # ys) \<and> chain par s cur ((cur, snd (par cur)) # ys)"
      by simp
    then show ?thesis by blast
  qed
qed (rule run)

lemma totals_snoc:
  assumes "t \<in> set (spec_itinerary_totals g p (xs @ [x]))"
    and "e \<in> set (neighbors g (fst x))"
    and "Edge.destination e = fst y" and "Edge.line e = snd y"
  shows "t + Edge.cost e + spec_transfer p (snd x) (snd y)
           \<in> set (spec_itinerary_totals g p (xs @ [x, y]))"
  using assms(1)
proof (induction xs arbitrary: t)
  case Nil
  then show ?case using assms(2-4) by auto
next
  case (Cons a xs)
  obtain b rest where br: "xs @ [x] = b # rest"
    by (cases "xs @ [x]") auto
  then obtain rest' where br': "xs @ [x, y] = b # rest'"
    by (cases xs) auto
  from Cons.prems br obtain e' t' where
    e': "e' \<in> set (neighbors g (fst a))" "Edge.destination e' = fst b" "Edge.line e' = snd b"
    and t': "t' \<in> set (spec_itinerary_totals g p (xs @ [x]))"
    and t: "t = t' + Edge.cost e' + spec_transfer p (snd a) (snd b)"
    by auto
  from Cons.IH[OF t']
  have "t' + Edge.cost e + spec_transfer p (snd x) (snd y)
          \<in> set (spec_itinerary_totals g p (xs @ [x, y]))" .
  with e' have "t' + Edge.cost e + spec_transfer p (snd x) (snd y) + Edge.cost e'
          + spec_transfer p (snd a) (snd b)
          \<in> set (spec_itinerary_totals g p (a # xs @ [x, y]))"
    unfolding br' by auto
  then show ?case by (simp add: t add.commute add.left_commute add.assoc)
qed

lemma totals_hops_stored:
  "t \<in> set (spec_itinerary_totals g p path) \<Longrightarrow> spec_hops_stored g path"
  by (induction g p path arbitrary: t rule: spec_itinerary_totals.induct)
     (auto simp: list_ex_iff)

lemma chain_totals:
  assumes ds: "dist st s = 0" and ps: "parent st s = ('''', '''')"
    and lk: "\<forall>v. v \<noteq> s \<and> dist st v < init_dist g v \<longrightarrow> linked g s tc m st v"
    and ch: "chain (parent st) s cur ys"
    and cur: "cur = s \<or> dist st cur < init_dist g cur"
  shows "dist st cur \<in> set (spec_itinerary_totals g tc (rev (ys @ [(s, '''')])))
         \<and> last (rev (ys @ [(s, '''')])) = (cur, snd (parent st cur))"
  using ch cur
proof (induction ys arbitrary: cur)
  case Nil
  then show ?case using ds ps by simp
next
  case (Cons x ys)
  define u where "u = fst (parent st cur)"
  from Cons.prems(1) have ne: "cur \<noteq> s" and x: "x = (cur, snd (parent st cur))"
    and chu: "chain (parent st) s u ys"
    by (simp_all add: u_def)
  from ne Cons.prems(2) lk have "linked g s tc m st cur" by blast
  then obtain e where e: "e \<in> set (neighbors g u)" "Edge.destination e = cur"
    "Edge.line e = snd (parent st cur)"
    and d: "dist st cur = dist st u + Edge.cost e + spec_transfer tc (snd (parent st u)) (Edge.line e)"
    and ru: "u = s \<or> dist st u < init_dist g u"
    unfolding linked_def Let_def u_def by blast
  define P where "P = rev (ys @ [(s, '''')])"
  from Cons.IH[OF chu ru]
  have t: "dist st u \<in> set (spec_itinerary_totals g tc P)"
    and l: "last P = (u, snd (parent st u))" by (simp_all add: P_def)
  have "P \<noteq> []" by (simp add: P_def)
  then have "P = butlast P @ [last P]" by simp
  then obtain Q where Q: "P = Q @ [(u, snd (parent st u))]"
    using l by metis
  have step: "rev ((x # ys) @ [(s, '''')]) = Q @ [(u, snd (parent st u)), x]"
    using Q by (simp add: P_def)
  have "dist st u + Edge.cost e + spec_transfer tc (snd (u, snd (parent st u))) (snd x)
          \<in> set (spec_itinerary_totals g tc (Q @ [(u, snd (parent st u)), x]))"
  proof (rule totals_snoc)
    show "dist st u \<in> set (spec_itinerary_totals g tc (Q @ [(u, snd (parent st u))]))"
      using t Q by simp
    show "e \<in> set (neighbors g (fst (u, snd (parent st u))))" using e by simp
    show "Edge.destination e = fst x" using e x by simp
    show "Edge.line e = snd x" using e x by simp
  qed
  then have "dist st cur \<in> set (spec_itinerary_totals g tc (rev ((x # ys) @ [(s, '''')])))"
    unfolding step using d e(3) x by simp
  moreover have "last (rev ((x # ys) @ [(s, '''')])) = (cur, snd (parent st cur))"
    unfolding step using x by simp
  ultimately show ?case by blast
qed


lemma search_loop_body:
  "search_loop tie dest tc st =
     (case loop_body tie dest tc st of
        Continue st' \<Rightarrow> search_loop tie dest tc st'
      | Stop r \<Rightarrow> Some r)"
  by (subst search_loop.simps)
     (simp add: loop_body_def Let_def split: prod.splits outcome.splits)





text \<open>
  Where the returned itinerary is right: on a graph without negative edge costs, with a
  non-negative transfer penalty and a destination that is a key of the adjacency list
  (or is the source), every call that returns a cost other than -1 returns an itinerary
  from the source to the destination over stored edges whose costs and transfers add up
  to that cost.
\<close>

lemma key_destination_itinerary_valid:
  assumes nn: "nonneg_costs g" and tc: "0 \<le> tc"
    and key: "dest \<in> dom (adjList g) \<or> dest = source"
    and run: "dijkstra tie g source dest tc = Some (Returns ((totalCost, path), g'))"
    and ok: "totalCost \<noteq> - 1"
  shows "path \<noteq> [] \<and> hd path = (source, '''') \<and> fst (last path) = dest
         \<and> spec_hops_stored g path
         \<and> totalCost \<in> set (spec_itinerary_totals g tc path)"
proof -
  from run obtain st where sl: "search_loop tie dest tc (init_state g source) = Some (Returns st)"
    by (auto simp: dijkstra_def split: option.splits outcome.splits)
  from search_loop_inv_aux[OF nn tc sl, of source] search_inv_init[of g source tc]
  obtain m where inv: "search_inv g source tc m st" by blast
  from run sl ok have reached: "dist st dest \<noteq> INT_MAX"
    by (auto simp: dijkstra_def)
  with run sl obtain fullPath where
    rc: "reconstruct (parent st) source dest [] = Some fullPath"
    and res: "totalCost = dist st dest" "path = rev (fullPath @ [(source, '''')])"
    by (auto simp: dijkstra_def split: option.splits)
  from reconstruct_chain[OF rc] have ch: "chain (parent st) source dest fullPath" by simp
  have cur: "dest = source \<or> dist st dest < init_dist g dest"
  proof (cases "dest = source")
    case False
    with key obtain es where "adjList g dest = Some es" by auto
    then have "init_dist g dest = INT_MAX" by (simp add: init_dist_def)
    moreover have "dist st dest \<le> init_dist g dest"
      using inv by (simp add: search_inv_def)
    ultimately show ?thesis using reached by simp
  qed simp
  have "dist st dest \<in> set (spec_itinerary_totals g tc (rev (fullPath @ [(source, '''')])))
         \<and> last (rev (fullPath @ [(source, '''')])) = (dest, snd (parent st dest))"
    using inv by (intro chain_totals[where m = m, OF _ _ _ ch cur]) (simp_all add: search_inv_def)
  then have "path \<noteq> [] \<and> hd path = (source, '''') \<and> fst (last path) = dest
         \<and> totalCost \<in> set (spec_itinerary_totals g tc path)"
    by (simp add: res)
  then show ?thesis
    using totals_hops_stored[of totalCost g tc path] by blast
qed

section \<open>Runs on the example networks\<close>

lemmas eval_defs = init_state_def pq_push_def pq_pop_def pq_top_def Let_def
  relax_edge_def add_int_def INT_MAX_def INT_MIN_def adjList_at_def
  addBidirectionalEdge_def addEdge_def emptyGraph_def

lemma pq_top_single: "pq_top tie [n] = n"
  by (simp add: pq_top_def)

lemma mod_two_cases: "(n::nat) mod Suc (Suc 0) = 0 \<or> n mod Suc (Suc 0) = Suc 0"
  by presburger

text \<open>
  Once the reconstruction loop stands at the empty station name with no parent recorded
  for it, and the source has another name, it never leaves: the parent of the empty name
  is again the empty name.
\<close>

lemma reconstruct_Some_not_stuck:
  assumes run: "reconstruct par source cur acc = Some y"
  shows "\<not> (cur = '''' \<and> fst (par '''') = '''' \<and> source \<noteq> '''')"
proof (induction par source cur acc y rule: reconstruct.raw_induct)
  case (1 rec par source cur acc y)
  show ?case
  proof
    assume a: "cur = '''' \<and> fst (par '''') = '''' \<and> source \<noteq> ''''"
    with 1(2) have "rec par source '''' (acc @ [('''', snd (par ''''))]) = Some y"
      by (simp split: if_splits)
    from 1(1)[OF this] a show False by simp
  qed
qed (rule run)

lemma reconstruct_stuck:
  assumes "fst (par '''') = ''''" and "source \<noteq> ''''"
  shows "reconstruct par source '''' acc = None"
  using reconstruct_Some_not_stuck[of par source "''''" acc] assms
  by (cases "reconstruct par source '''' acc") auto

lemma trap_net_run:
  "dijkstra tie trap_net ''S'' ''D'' 10 =
     Some (Returns ((12, [(''S'', ''''), (''M'', ''A''), (''D'', ''B'')]), trap_net))"
  unfolding dijkstra_def trap_net_def
  apply (subst search_loop.simps, simp add: eval_defs)
  apply (subst search_loop.simps, simp add: eval_defs)
  apply (subst search_loop.simps, simp add: eval_defs)
  apply (simp add: reconstruct.simps)
  done

lemma detour_net_run_2:
  "dijkstra tie detour_net ''S'' ''D'' 2 =
     Some (Returns ((7, [(''S'', ''''), (''Y'', ''X''), (''M'', ''A''), (''D'', ''B'')]),
                    detour_net))"
  unfolding dijkstra_def detour_net_def
  apply (subst search_loop.simps, simp add: eval_defs)
  apply (subst search_loop.simps, simp add: eval_defs)
  apply (subst search_loop.simps, simp add: eval_defs)
  apply (subst search_loop.simps, simp add: eval_defs)
  apply (subst search_loop.simps, simp add: eval_defs)
  apply (simp add: reconstruct.simps)
  done

lemma detour_net_run_4:
  "dijkstra tie detour_net ''S'' ''D'' 4 =
     Some (Returns ((6, [(''S'', ''''), (''M'', ''B''), (''D'', ''B'')]), detour_net))"
  unfolding dijkstra_def detour_net_def
  apply (subst search_loop.simps, simp add: eval_defs)
  apply (subst search_loop.simps, simp add: eval_defs)
  apply (subst search_loop.simps, simp add: eval_defs)
  apply (subst search_loop.simps, simp add: eval_defs)
  apply (simp add: reconstruct.simps)
  done


lemma empty_graph_run:
  "dijkstra tie emptyGraph '''' ''B'' 7 =
     Some (Returns ((0, [('''', ''''), (''B'', '''')]),
                    emptyGraph\<lparr>adjList := (adjList emptyGraph)('''' \<mapsto> [])\<rparr>))"
  unfolding dijkstra_def
  apply (subst search_loop.simps, simp add: eval_defs)
  apply (subst search_loop.simps, simp add: eval_defs)
  apply (simp add: reconstruct.simps)
  done



lemma two_components_run_C:
  "dijkstra tie two_components ''A'' ''C'' 2 = Some (Returns ((- 1, []), two_components))"
  unfolding dijkstra_def two_components_def
  apply (subst search_loop.simps, simp add: eval_defs)
  apply (subst search_loop.simps, simp add: eval_defs)
  apply (subst search_loop.simps, simp add: eval_defs)
  done

lemma two_components_run_E:
  "dijkstra tie two_components ''A'' ''E'' 2 = None"
  unfolding dijkstra_def two_components_def
  apply (subst search_loop.simps, simp add: eval_defs)
  apply (subst search_loop.simps, simp add: eval_defs)
  apply (subst search_loop.simps, simp add: eval_defs)
  apply (subst reconstruct.simps, simp add: reconstruct_stuck)
  done

lemma one_way_net_run:
  "dijkstra tie one_way_net ''A'' ''B'' 2 = None"
  unfolding dijkstra_def one_way_net_def
  apply (subst search_loop.simps, simp add: eval_defs)
  apply (subst search_loop.simps, simp add: eval_defs)
  apply (subst reconstruct.simps, simp add: reconstruct_stuck)
  done

lemma two_hop_net_run:
  assumes "INT_MIN \<le> 7 + tc" and "7 + tc < INT_MAX"
  shows "dijkstra tie two_hop_net ''A'' ''C'' tc =
     Some (Returns ((7 + tc, [(''A'', ''''), (''B'', ''1''), (''C'', ''2'')]), two_hop_net))"
  using assms
  unfolding dijkstra_def two_hop_net_def
  apply (subst search_loop.simps, simp add: eval_defs)
  apply (subst search_loop.simps, simp add: eval_defs)
  apply (subst search_loop.simps, simp add: eval_defs)
  apply (simp add: reconstruct.simps)
  done

lemma sample_run_absent_source:
  "dijkstra tie (buildSampleGraph emptyGraph) ''Bronx'' ''Times Sq'' 2 =
     Some (Returns ((- 1, []),
       (buildSampleGraph emptyGraph)
         \<lparr>adjList := (adjList (buildSampleGraph emptyGraph))(''Bronx'' \<mapsto> [])\<rparr>))"
  unfolding dijkstra_def buildSampleGraph_def Let_def
  apply (subst search_loop.simps, simp add: eval_defs)
  apply (subst search_loop.simps, simp add: eval_defs)
  done

lemma sample_no_Bronx: "adjList (buildSampleGraph emptyGraph) ''Bronx'' = None"
  unfolding buildSampleGraph_def Let_def
  by (simp add: eval_defs)

section \<open>The claims\<close>

text \<open>
  C1: for every graph with non-negative edge costs, every non-negative transfer penalty
  and every destination reachable from the source, the returned cost is the minimum over
  all paths of the edge costs plus one penalty for each change of line.

  The search keeps one distance per station. On \<open>trap_net\<close> with penalty 10 it settles M
  at cost 1 on line A, discards the arrival at cost 2 on line B, and pays the penalty at
  M: it returns 12, while the route on line B all the way costs 3.
\<close>

theorem dijkstra_misses_cheaper_route:
  "dijkstra tie trap_net ''S'' ''D'' 10 =
     Some (Returns ((12, [(''S'', ''''), (''M'', ''A''), (''D'', ''B'')]), trap_net))
   \<and> spec_itinerary_totals trap_net 10 [(''S'', ''''), (''M'', ''B''), (''D'', ''B'')] = [3]"
proof
  show "dijkstra tie trap_net ''S'' ''D'' 10 =
     Some (Returns ((12, [(''S'', ''''), (''M'', ''A''), (''D'', ''B'')]), trap_net))"
    by (rule trap_net_run)
  show "spec_itinerary_totals trap_net 10 [(''S'', ''''), (''M'', ''B''), (''D'', ''B'')] = [3]"
    by (simp add: trap_net_def neighbors_def spec_transfer_def eval_defs)
qed

text \<open>
  C2: whenever no path leads from the source to the destination, a station absent from
  the graph included, the call returns the unreachable result \<open>(-1, [])\<close> as an ordinary
  value.

  Between the two components of \<open>two_components\<close> it does. For the destination E, which
  the graph does not hold, the distance read at the end is the value-initialised 0, not
  the maximal \<^verbatim>\<open>int\<close>, and the reconstruction loop walks from E to the empty station name
  and stays there: the call does not return.
\<close>

theorem absent_destination_never_returns:
  "dijkstra tie two_components ''A'' ''C'' 2 = Some (Returns ((- 1, []), two_components))
   \<and> dijkstra tie two_components ''A'' ''E'' 2 = None"
  by (simp add: two_components_run_C two_components_run_E)

text \<open>
  C3: for every graph, source, destination and transfer penalty the call runs to
  completion and returns a result.

  On the single directed edge from A to B, the query from A to B does not return: B is
  no key of the adjacency list, its distance starts at 0, the edge of cost 3 does not
  improve on 0, and the reconstruction loop finds no parent for B.
\<close>

theorem leaf_destination_never_returns:
  "dijkstra tie one_way_net ''A'' ''B'' 2 = None"
  by (rule one_way_net_run)

text \<open>
  C4: every itinerary returned as a success runs from the source, which carries the none
  line, to the destination; each consecutive pair of its entries corresponds to a stored
  edge of the second entry's line; and the costs of those edges plus one transfer penalty
  for each change of line add up to the returned cost.

  On the empty graph, the query from the station with the empty name to B returns cost 0
  and the itinerary of the two entries \<open>("", "")\<close> and \<open>("B", "")\<close>, though the graph
  stores no edge at all. B is no key of the adjacency list, so its distance reads the
  value-initialised 0 and passes for reached, and the reconstruction loop steps from B to
  the parent that was never written, the empty name, which here is the source. For
  destinations that are keys the itinerary is right, see \<open>key_destination_itinerary_valid\<close>.
\<close>

theorem itinerary_without_edge:
  "dijkstra tie emptyGraph '''' ''B'' 7 =
     Some (Returns ((0, [('''', ''''), (''B'', '''')]),
                    emptyGraph\<lparr>adjList := (adjList emptyGraph)('''' \<mapsto> [])\<rparr>))
   \<and> \<not> spec_hops_stored emptyGraph [('''', ''''), (''B'', '''')]
   \<and> spec_itinerary_totals emptyGraph 7 [('''', ''''), (''B'', '''')] = []"
proof (intro conjI)
  show "dijkstra tie emptyGraph '''' ''B'' 7 =
     Some (Returns ((0, [('''', ''''), (''B'', '''')]),
                    emptyGraph\<lparr>adjList := (adjList emptyGraph)('''' \<mapsto> [])\<rparr>))"
    by (rule empty_graph_run)
  show "\<not> spec_hops_stored emptyGraph [('''', ''''), (''B'', '''')]"
    by (simp add: neighbors_def emptyGraph_def)
  show "spec_itinerary_totals emptyGraph 7 [('''', ''''), (''B'', '''')] = []"
    by (simp add: neighbors_def emptyGraph_def)
qed

text \<open>
  C5: for every graph, station \<open>s\<close> and transfer penalty, the query from \<open>s\<close> to \<open>s\<close>
  returns cost 0 and the one-element itinerary \<open>[(s, none)]\<close>, the none line being the
  empty string.
\<close>

theorem dijkstra_same_station:
  "dijkstra tie g s s transferCost = Some (Returns ((0, [(s, '''')]), g))"
  unfolding dijkstra_def
  apply (subst search_loop.simps)
  apply (simp add: init_state_def pq_push_def pq_pop_def pq_top_single INT_MAX_def)
  apply (simp add: reconstruct.simps)
  done




text \<open>
  C7: for a fixed graph, source and destination, a larger transfer penalty never gives a
  smaller returned cost.

  On \<open>detour_net\<close> the returned cost falls from 7 at penalty 2 to 6 at penalty 4. At
  penalty 2 the station M is first settled through Y on line A (cost 4), and the change
  to line B then costs 2 more; at penalty 4 the direct edge on line B (cost 5) wins at M
  and no change follows. The route on line B costs 6 at either penalty.
\<close>

theorem cost_not_monotone_in_penalty:
  "dijkstra tie detour_net ''S'' ''D'' 2 =
     Some (Returns ((7, [(''S'', ''''), (''Y'', ''X''), (''M'', ''A''), (''D'', ''B'')]),
                    detour_net))
   \<and> dijkstra tie detour_net ''S'' ''D'' 4 =
     Some (Returns ((6, [(''S'', ''''), (''M'', ''B''), (''D'', ''B'')]), detour_net))"
  by (simp add: detour_net_run_2 detour_net_run_4)

text \<open>
  C8: a query leaves the adjacency list as it was, also when it names a station absent
  from the graph.

  \<^verbatim>\<open>adjList[current.station]\<close> inserts the popped station when it is no key. On the sample
  network the query from Bronx, which the network does not hold, returns the unreachable
  result and leaves Bronx in the adjacency list with an empty vector.
\<close>

theorem query_inserts_absent_source:
  "dijkstra tie (buildSampleGraph emptyGraph) ''Bronx'' ''Times Sq'' 2 =
     Some (Returns ((- 1, []),
       (buildSampleGraph emptyGraph)
         \<lparr>adjList := (adjList (buildSampleGraph emptyGraph))(''Bronx'' \<mapsto> [])\<rparr>))
   \<and> adjList (buildSampleGraph emptyGraph) ''Bronx'' = None"
  by (simp add: sample_run_absent_source sample_no_Bronx)

text \<open>
  C9: on the sample network, the query from Times Sq to Grand Central with transfer
  penalty 2 returns cost 9 and the itinerary Times Sq, 42nd St on line 1, Grand Central
  on line 2.

  After 42nd St is expanded the queue holds 34th St and Grand Central, both at cost 9;
  the result is the same whichever the heap gives first.
\<close>

theorem sample_route_times_sq_grand_central:
  "dijkstra tie (buildSampleGraph emptyGraph) ''Times Sq'' ''Grand Central'' 2 =
     Some (Returns ((9, [(''Times Sq'', ''''), (''42nd St'', ''1''), (''Grand Central'', ''2'')]),
                    buildSampleGraph emptyGraph))"
proof -
  let ?q = "[Node 9 ''34th St'' ''1'', Node 9 ''Grand Central'' ''2'']"
  from mod_two_cases[of "tie ?q"] show ?thesis
  proof
    assume a: "tie ?q mod Suc (Suc 0) = 0"
    show ?thesis
      unfolding dijkstra_def buildSampleGraph_def Let_def
      apply (subst search_loop.simps, simp add: eval_defs)
      apply (subst search_loop.simps, simp add: eval_defs)
      apply (subst search_loop.simps, simp add: eval_defs a)
      apply (subst search_loop.simps, simp add: eval_defs)
      apply (simp add: reconstruct.simps)
      done
  next
    assume a: "tie ?q mod Suc (Suc 0) = Suc 0"
    show ?thesis
      unfolding dijkstra_def buildSampleGraph_def Let_def
      apply (subst search_loop.simps, simp add: eval_defs)
      apply (subst search_loop.simps, simp add: eval_defs)
      apply (subst search_loop.simps, simp add: eval_defs a)
      apply (simp add: reconstruct.simps)
      done
  qed
qed

text \<open>
  An edge of cost -5 is stored, and a query with transfer penalty -2 is answered with
  the penalty subtracted: neither is rejected.
\<close>

theorem negative_inputs_accepted:
  "adjList (addEdge emptyGraph ''A'' ''B'' (- 5) ''1'') ''A'' = Some [Edge ''B'' (- 5) ''1'']
   \<and> dijkstra tie_first two_hop_net ''A'' ''C'' (- 2) =
       Some (Returns ((5, [(''A'', ''''), (''B'', ''1''), (''C'', ''2'')]), two_hop_net))"
proof
  show "adjList (addEdge emptyGraph ''A'' ''B'' (- 5) ''1'') ''A'' = Some [Edge ''B'' (- 5) ''1'']"
    by (simp add: eval_defs)
  show "dijkstra tie_first two_hop_net ''A'' ''C'' (- 2) =
       Some (Returns ((5, [(''A'', ''''), (''B'', ''1''), (''C'', ''2'')]), two_hop_net))"
    using two_hop_net_run[of "- 2" tie_first] by (simp add: INT_MIN_def INT_MAX_def)
qed

text \<open>
  C10, amended: neither \<^verbatim>\<open>addEdge\<close> nor \<^verbatim>\<open>dijkstra\<close> validates its input. \<^verbatim>\<open>addEdge\<close>
  appends the edge to the vector of its start station whatever the cost, and \<^verbatim>\<open>dijkstra\<close>
  adds the transfer penalty it is given, negative or not: on \<open>two_hop_net\<close>, whose only
  route from A to C costs 4 and 3 with one change of line, it returns 7 plus the penalty
  for every penalty that keeps this sum within \<^verbatim>\<open>int\<close> and below its maximum.
\<close>

theorem no_input_validation:
  "adjList (addEdge g frm to c l) frm = Some (neighbors g frm @ [Edge to c l])
   \<and> (INT_MIN \<le> 7 + tc \<and> 7 + tc < INT_MAX \<longrightarrow>
        dijkstra tie two_hop_net ''A'' ''C'' tc =
          Some (Returns ((7 + tc, [(''A'', ''''), (''B'', ''1''), (''C'', ''2'')]), two_hop_net)))"
proof (intro conjI impI)
  show "adjList (addEdge g frm to c l) frm = Some (neighbors g frm @ [Edge to c l])"
    by (simp add: addEdge_def adjList_at_def neighbors_def split: option.splits)
next
  assume "INT_MIN \<le> 7 + tc \<and> 7 + tc < INT_MAX"
  then show "dijkstra tie two_hop_net ''A'' ''C'' tc =
          Some (Returns ((7 + tc, [(''A'', ''''), (''B'', ''1''), (''C'', ''2'')]), two_hop_net))"
    by (intro two_hop_net_run) simp_all
qed

theorem no_input_validation_witness:
  "adjList (addEdge emptyGraph ''A'' ''B'' (- 5) ''1'') ''A''
     = Some (neighbors emptyGraph ''A'' @ [Edge ''B'' (- 5) ''1''])
   \<and> INT_MIN \<le> 7 + (- 100) \<and> 7 + (- 100) < INT_MAX
   \<and> dijkstra tie_first two_hop_net ''A'' ''C'' (- 100) =
       Some (Returns ((- 93, [(''A'', ''''), (''B'', ''1''), (''C'', ''2'')]), two_hop_net))"
  using no_input_validation[of emptyGraph "''A''" "''B''" "- 5" "''1''" "- 100" tie_first]
  by (simp add: INT_MIN_def INT_MAX_def)

end
